theory Spec2Isabelle
  imports Complex_Main
begin

section \<open>Python values, exceptions and the object store\<close>

text \<open>
  The module \<^verbatim>\<open>shed_tools_methods.py\<close> works on YAML-like data: dictionaries with
  string keys whose values are \<^verbatim>\<open>None\<close>, booleans, numbers, strings and lists.
  A dictionary is a mutable object, so it lives in a store and is passed by reference
  (its address); lists are never written to by the module (the only list it extends is
  its own local \<^verbatim>\<open>flattened_list\<close>), so they are values.
\<close>

datatype pyval =
    PNone
  | PBool bool
  | PInt int
  | PFloat real
  | PStr string
  | PList "pyval list"

type_synonym dict = "string \<rightharpoonup> pyval"

type_synonym addr = nat

type_synonym heap = "dict list"

text \<open>
  Exceptions. \<open>KeyError k\<close> is what a subscript \<^verbatim>\<open>d[k]\<close> raises on a missing key,
  \<open>KeyError_panel name\<close> is the \<^verbatim>\<open>KeyError\<close> of line 46 (its message is built from the
  tool's name), \<open>LookupError\<close> is the one of line 82. \<open>TypeError\<close>, \<open>AttributeError\<close>,
  \<open>IndexError\<close> and \<open>AssertionError\<close> are raised by the interpreter on ill-typed
  operations, bad indices and failed assertions. \<open>RunToolException\<close> and
  \<open>JobOutputsError\<close> are the two exception classes of the execution interactor that
  the test runner catches by name; \<open>ServiceError\<close> is any other exception of an
  external service that is an instance of \<^verbatim>\<open>Exception\<close>. \<open>BaseException\<close> is an
  exception that is not an instance of \<^verbatim>\<open>Exception\<close> (\<^verbatim>\<open>KeyboardInterrupt\<close>,
  \<^verbatim>\<open>SystemExit\<close>, \<^verbatim>\<open>GeneratorExit\<close>): a clause \<^verbatim>\<open>except Exception\<close> does not catch it.
\<close>

datatype exn =
    KeyError string
  | KeyError_panel pyval
  | LookupError
  | TypeError
  | AttributeError
  | IndexError
  | AssertionError
  | RunToolException string pyval
  | JobOutputsError "exn list" pyval
  | ServiceError string
  | BaseException string



fun is_KeyError :: "exn \<Rightarrow> bool" where
  "is_KeyError (KeyError k) = True"
| "is_KeyError (KeyError_panel n) = True"
| "is_KeyError e = False"

text \<open>Truth value of an object, as \<^verbatim>\<open>not x\<close> and \<^verbatim>\<open>if x:\<close> test it.\<close>

fun py_truthy :: "pyval \<Rightarrow> bool" where
  "py_truthy PNone = False"
| "py_truthy (PBool b) = b"
| "py_truthy (PInt i) = (i \<noteq> 0)"
| "py_truthy (PFloat r) = (r \<noteq> 0)"
| "py_truthy (PStr s) = (s \<noteq> [])"
| "py_truthy (PList xs) = (xs \<noteq> [])"

text \<open>\<^verbatim>\<open>for x in v\<close>: a list yields its elements, a string its characters (as
  one-character strings); anything else is not iterable.\<close>

fun py_iter :: "pyval \<Rightarrow> exn + pyval list" where
  "py_iter (PList xs) = Inr xs"
| "py_iter (PStr s) = Inr (map (\<lambda>c. PStr [c]) s)"
| "py_iter v = Inl TypeError"

text \<open>\<^verbatim>\<open>d[k]\<close>, \<^verbatim>\<open>d.get(k)\<close> and \<^verbatim>\<open>d.get(k, default)\<close>.\<close>

definition subscript :: "dict \<Rightarrow> string \<Rightarrow> exn + pyval" where
  "subscript d k = (case d k of None \<Rightarrow> Inl (KeyError k) | Some v \<Rightarrow> Inr v)"

definition get_default :: "dict \<Rightarrow> string \<Rightarrow> pyval \<Rightarrow> pyval" where
  "get_default d k dflt = (case d k of None \<Rightarrow> dflt | Some v \<Rightarrow> v)"

definition get :: "dict \<Rightarrow> string \<Rightarrow> pyval" where
  "get d k = get_default d k PNone"

text \<open>The store: \<open>alloc\<close> creates a new dictionary object at the next free address,
  \<open>setitem\<close> is \<^verbatim>\<open>d[k] = v\<close> on the object at an address.\<close>

definition alloc :: "heap \<Rightarrow> dict \<Rightarrow> heap \<times> addr" where
  "alloc h d = (h @ [d], length h)"

definition setitem :: "heap \<Rightarrow> addr \<Rightarrow> string \<Rightarrow> pyval \<Rightarrow> heap" where
  "setitem h a k v = h[a := (h ! a)(k \<mapsto> v)]"

text \<open>
  External services are parameters of the model, and every call to one is logged. The
  state threaded through the module's functions is the store together with that log.
  The catalog is the tool shed client: \<open>ToolShedInstance\<close> is the constructor
  \<^verbatim>\<open>ToolShedInstance(url=...)\<close>, given by its outcome (\<open>None\<close>: the client object is
  built; \<open>Some e\<close>: the constructor raises \<open>e\<close>); building the object is not a query and
  is not logged. \<open>get_ordered_installable_revisions\<close> is the query
  \<^verbatim>\<open>ts.repositories.get_ordered_installable_revisions(name, owner)\<close> on the client
  built for a URL: it raises or returns the ordered list of installable revisions.
\<close>

datatype event =
    CatalogQuery pyval pyval pyval
  | GetToolTests
  | NewHistory
  | StageData
  | RunTool
  | VerifyOutputs
  | RegisterJobData dict

record state =
  heap :: heap
  trace :: "event list"

record catalog =
  ToolShedInstance :: "pyval \<Rightarrow> exn option"
  get_ordered_installable_revisions :: "pyval \<Rightarrow> pyval \<Rightarrow> pyval \<Rightarrow> exn + pyval list"

definition log_event :: "event \<Rightarrow> state \<Rightarrow> state" where
  "log_event ev s = s\<lparr>trace := trace s @ [ev]\<rparr>"

definition store :: "addr \<Rightarrow> string \<Rightarrow> pyval \<Rightarrow> state \<Rightarrow> state" where
  "store a k v s = s\<lparr>heap := setitem (heap s) a k v\<rparr>"

definition new_dict :: "state \<Rightarrow> addr \<times> state" where
  "new_dict s = (let (h, a) = alloc (heap s) Map.empty in (a, s\<lparr>heap := h\<rparr>))"

section \<open>The module\<close>

definition VALID_KEYS :: "string list" where
  "VALID_KEYS =
     [''name'',
      ''owner'',
      ''changeset_revision'',
      ''tool_panel_section_id'',
      ''tool_panel_section_label'',
      ''tool_shed_url'',
      ''install_repository_dependencies'',
      ''install_resolver_dependencies'',
      ''install_tool_dependencies'']"

subsection \<open>format_tool_shed_url\<close>

text \<open>\<^verbatim>\<open>s.startswith(p)\<close> and \<^verbatim>\<open>s.endswith(p)\<close> on strings.\<close>

definition startswith :: "string \<Rightarrow> string \<Rightarrow> bool" where
  "startswith s p = (take (length p) s = p)"

definition endswith :: "string \<Rightarrow> string \<Rightarrow> bool" where
  "endswith s p = (length p \<le> length s \<and> drop (length s - length p) s = p)"

definition format_tool_shed_url :: "string \<Rightarrow> string" where
  "format_tool_shed_url tool_shed_url =
     (let formatted_tool_shed_url = tool_shed_url;
          formatted_tool_shed_url =
            (if \<not> endswith formatted_tool_shed_url ''/''
             then formatted_tool_shed_url @ ''/'' else formatted_tool_shed_url);
          formatted_tool_shed_url =
            (if \<not> startswith formatted_tool_shed_url ''http''
             then ''https://'' @ formatted_tool_shed_url else formatted_tool_shed_url)
      in formatted_tool_shed_url)"

text \<open>The call \<^verbatim>\<open>format_tool_shed_url(v)\<close> on an arbitrary value: only a string has the
  methods \<^verbatim>\<open>endswith\<close> and \<^verbatim>\<open>startswith\<close>.\<close>

fun call_format_tool_shed_url :: "pyval \<Rightarrow> exn + pyval" where
  "call_format_tool_shed_url (PStr u) = Inr (PStr (format_tool_shed_url u))"
| "call_format_tool_shed_url v = Inl AttributeError"

subsection \<open>get_changeset_revisions\<close>

text \<open>Lines 76-85. Line 77 reads \<^verbatim>\<open>repository['tool_shed_url']\<close> and builds the client;
  lines 79-80 read \<^verbatim>\<open>repository['name']\<close> and \<^verbatim>\<open>repository['owner']\<close>, in this order,
  and then send the query; line 82 raises \<open>LookupError\<close> on an empty answer; line 83
  assigns the last revision in the dictionary passed in, which line 85 returns.\<close>

definition get_changeset_revisions :: "catalog \<Rightarrow> addr \<Rightarrow> bool \<Rightarrow> state \<Rightarrow> (exn + addr) \<times> state" where
  "get_changeset_revisions ts repository force_latest_revision s =
     (if get (heap s ! repository) ''changeset_revision'' = PNone \<or> force_latest_revision then
        (case subscript (heap s ! repository) ''tool_shed_url'' of
           Inl e \<Rightarrow> (Inl e, s)
         | Inr url \<Rightarrow>
        (case ToolShedInstance ts url of
           Some e \<Rightarrow> (Inl e, s)
         | None \<Rightarrow>
        (case subscript (heap s ! repository) ''name'' of
           Inl e \<Rightarrow> (Inl e, s)
         | Inr name \<Rightarrow>
        (case subscript (heap s ! repository) ''owner'' of
           Inl e \<Rightarrow> (Inl e, s)
         | Inr owner \<Rightarrow>
        (let s = log_event (CatalogQuery url name owner) s in
         case get_ordered_installable_revisions ts url name owner of
           Inl e \<Rightarrow> (Inl e, s)
         | Inr installable_revisions \<Rightarrow>
             if installable_revisions = [] then (Inl LookupError, s)
             else (Inr repository,
                   store repository ''changeset_revision'' (last installable_revisions) s))))))
      else (Inr repository, s))"

subsection \<open>complete_repo_information\<close>

text \<open>\<^verbatim>\<open>'data_manager' in v\<close>: a substring test on a string, a membership test on a
  list, a \<open>TypeError\<close> on a value that is not a container.\<close>

fun is_substring :: "string \<Rightarrow> string \<Rightarrow> bool" where
  "is_substring p [] = (p = [])"
| "is_substring p (c # s) = (startswith (c # s) p \<or> is_substring p s)"

fun str_in :: "string \<Rightarrow> pyval \<Rightarrow> exn + bool" where
  "str_in p (PStr s) = Inr (is_substring p s)"
| "str_in p (PList xs) = Inr (PStr p \<in> set xs)"
| "str_in p v = Inl TypeError"

definition complete_repo_information ::
  "catalog \<Rightarrow> addr \<Rightarrow> pyval \<Rightarrow> bool \<Rightarrow> pyval \<Rightarrow> pyval \<Rightarrow> pyval \<Rightarrow> bool \<Rightarrow> state
     \<Rightarrow> (exn + addr) \<times> state" where
  "complete_repo_information ts tool default_toolshed_url require_tool_panel_info
       default_install_tool_dependencies default_install_repository_dependencies
       default_install_resolver_dependencies force_latest_revision s =
     (let (repo, s) = new_dict s in
      case subscript (heap s ! tool) ''name'' of
        Inl e \<Rightarrow> (Inl e, s)
      | Inr name \<Rightarrow>
     (let s = store repo ''name'' name s in
      case subscript (heap s ! tool) ''owner'' of
        Inl e \<Rightarrow> (Inl e, s)
      | Inr owner \<Rightarrow>
     (let s = store repo ''owner'' owner s;
          s = store repo ''tool_panel_section_id'' (get (heap s ! tool) ''tool_panel_section_id'') s;
          s = store repo ''tool_panel_section_label''
                (get (heap s ! tool) ''tool_panel_section_label'') s
      in
      case (if require_tool_panel_info
               \<and> get (heap s ! repo) ''tool_panel_section_id'' = PNone
               \<and> get (heap s ! repo) ''tool_panel_section_label'' = PNone
            then (case str_in ''data_manager'' (get (heap s ! repo) ''name'') of
                    Inl e \<Rightarrow> Some e
                  | Inr found \<Rightarrow>
                      if \<not> found then Some (KeyError_panel (get (heap s ! repo) ''name''))
                      else None)
            else None) of
        Some e \<Rightarrow> (Inl e, s)
      | None \<Rightarrow>
     (case call_format_tool_shed_url
             (get_default (heap s ! tool) ''tool_shed_url'' default_toolshed_url) of
        Inl e \<Rightarrow> (Inl e, s)
      | Inr url \<Rightarrow>
     (let s = store repo ''tool_shed_url'' url s;
          s = store repo ''changeset_revision'' (get (heap s ! tool) ''changeset_revision'') s
      in
      case get_changeset_revisions ts repo force_latest_revision s of
        (Inl e, s) \<Rightarrow> (Inl e, s)
      | (Inr repo, s) \<Rightarrow>
     (let s = store repo ''install_repository_dependencies''
                (get_default (heap s ! tool) ''install_repository_dependencies''
                   default_install_repository_dependencies) s;
          s = store repo ''install_resolver_dependencies''
                (get_default (heap s ! tool) ''install_resolver_dependencies''
                   default_install_resolver_dependencies) s;
          s = store repo ''install_tool_dependencies''
                (get_default (heap s ! tool) ''install_tool_dependencies''
                   default_install_tool_dependencies) s
      in (Inr repo, s)))))))"

subsection \<open>flatten_repo_info\<close>

text \<open>Lines 105-108: the new dictionary holds the items of \<open>repo_info\<close> whose key is in
  \<open>VALID_KEYS\<close>.\<close>

definition valid_items :: "dict \<Rightarrow> dict" where
  "valid_items repo_info = (\<lambda>key. if key \<in> set VALID_KEYS then repo_info key else None)"

text \<open>Lines 114-120, the loop over the revisions: each round creates a new dictionary
  object with the items of \<open>new_repo_info\<close>, stores the revision into it and appends
  its reference to the result.\<close>

fun revisions_loop :: "addr \<Rightarrow> pyval list \<Rightarrow> heap \<Rightarrow> addr list \<Rightarrow> heap \<times> addr list" where
  "revisions_loop new_repo_info [] h flattened_list = (h, flattened_list)"
| "revisions_loop new_repo_info (revision # rest) h flattened_list =
     (let (h, new_revision_dict) = alloc h (h ! new_repo_info);
          h = setitem h new_revision_dict ''changeset_revision'' revision
      in revisions_loop new_repo_info rest h (flattened_list @ [new_revision_dict]))"

text \<open>Lines 104-122, the loop over the repositories. Iterating over a truthy value
  that is not iterable raises \<open>TypeError\<close> and ends the call.\<close>

fun repositories_loop :: "addr list \<Rightarrow> heap \<Rightarrow> addr list \<Rightarrow> (exn + addr list) \<times> heap" where
  "repositories_loop [] h flattened_list = (Inr flattened_list, h)"
| "repositories_loop (repo_info # rest) h flattened_list =
     (let (h, new_repo_info) = alloc h (valid_items (h ! repo_info)) in
      if (h ! repo_info) ''revisions'' \<noteq> None then
        (let revisions = get_default (h ! repo_info) ''revisions'' (PList []) in
         if \<not> py_truthy revisions
         then repositories_loop rest h (flattened_list @ [new_repo_info])
         else
           (case py_iter revisions of
              Inl e \<Rightarrow> (Inl e, h)
            | Inr revs \<Rightarrow>
                (let (h, flattened_list) = revisions_loop new_repo_info revs h flattened_list
                 in repositories_loop rest h flattened_list)))
      else repositories_loop rest h (flattened_list @ [new_repo_info]))"

definition flatten_repo_info :: "heap \<Rightarrow> addr list \<Rightarrow> (exn + addr list) \<times> heap" where
  "flatten_repo_info h repositories = repositories_loop repositories h []"

text \<open>
  What the specification says an input element contributes to the result (the Revision
  Flattener: one entry per (repository, revision) pair). \<open>revisions_listed\<close> holds of
  the elements it speaks about: no \<^verbatim>\<open>revisions\<close> key, or a value that is \<^verbatim>\<open>None\<close> or a list.
  \<open>expected_entries\<close> is the contribution: one entry per listed revision, carrying that
  revision as its \<^verbatim>\<open>changeset_revision\<close>, or a single entry with no
  \<^verbatim>\<open>changeset_revision\<close> added when no revision is listed.
\<close>

definition revisions_listed :: "dict \<Rightarrow> bool" where
  "revisions_listed d =
     (case d ''revisions'' of
        None \<Rightarrow> True
      | Some PNone \<Rightarrow> True
      | Some (PList rs) \<Rightarrow> True
      | Some v \<Rightarrow> False)"

definition expected_entries :: "dict \<Rightarrow> dict list" where
  "expected_entries d =
     (case d ''revisions'' of
        Some (PList (r # rs)) \<Rightarrow>
          map (\<lambda>revision. (valid_items d)(''changeset_revision'' \<mapsto> revision)) (r # rs)
      | _ \<Rightarrow> [valid_items d])"

subsection \<open>verify_tool_keep_history\<close>























text \<open>\<open>traced E s s'\<close>: the log of \<open>s'\<close> extends the log of \<open>s\<close> by events of \<open>E\<close>.\<close>

definition traced :: "event set \<Rightarrow> state \<Rightarrow> state \<Rightarrow> bool" where
  "traced E s s' = (\<exists>evs. trace s' = trace s @ evs \<and> set evs \<subseteq> E)"

section \<open>Example inputs\<close>

text \<open>A store with two repository entries: the first lists two revisions and carries
  a key that is not in \<open>VALID_KEYS\<close>, the second lists none.\<close>

definition example_repositories :: heap where
  "example_repositories =
     [[''name'' \<mapsto> PStr ''bwa'', ''owner'' \<mapsto> PStr ''devteam'', ''comment'' \<mapsto> PStr ''x'',
       ''revisions'' \<mapsto> PList [PStr ''r1'', PStr ''r2'']],
      [''name'' \<mapsto> PStr ''fastqc'', ''owner'' \<mapsto> PStr ''devteam'']]"

text \<open>A store with three repository entries whose \<^verbatim>\<open>revisions\<close> is not always a list:
  the first has no such key, the second holds the number 7, the third the string
  \<^verbatim>\<open>ab\<close>.\<close>

definition unlisted_repositories :: heap where
  "unlisted_repositories =
     [[''name'' \<mapsto> PStr ''a''],
      [''name'' \<mapsto> PStr ''b'', ''revisions'' \<mapsto> PInt 7],
      [''name'' \<mapsto> PStr ''c'', ''revisions'' \<mapsto> PStr ''ab'']]"

text \<open>Three catalogs whose client is built for every URL: one lists two installable
  revisions for every repository, one lists none, one raises on every query. A fourth
  one has a constructor that raises.\<close>

definition example_catalog :: catalog where
  "example_catalog =
     \<lparr>ToolShedInstance = (\<lambda>url. None),
      get_ordered_installable_revisions = (\<lambda>url name owner. Inr [PStr ''r1'', PStr ''r2''])\<rparr>"



definition unbuilt_catalog :: catalog where
  "unbuilt_catalog =
     \<lparr>ToolShedInstance = (\<lambda>url. Some (ServiceError ''invalid url'')),
      get_ordered_installable_revisions = (\<lambda>url name owner. Inr [PStr ''r1'', PStr ''r2''])\<rparr>"

text \<open>A state whose store holds one repository dictionary with a pinned revision, and
  one whose repository has \<^verbatim>\<open>changeset_revision\<close> set to \<^verbatim>\<open>None\<close>.\<close>

definition pinned_state :: state where
  "pinned_state =
     \<lparr>heap = [[''name'' \<mapsto> PStr ''bwa'', ''owner'' \<mapsto> PStr ''devteam'',
               ''tool_shed_url'' \<mapsto> PStr ''https://toolshed.g2.bx.psu.edu/'',
               ''changeset_revision'' \<mapsto> PStr ''abc'']],
      trace = []\<rparr>"

definition unpinned_state :: state where
  "unpinned_state =
     \<lparr>heap = [[''name'' \<mapsto> PStr ''bwa'', ''owner'' \<mapsto> PStr ''devteam'',
               ''tool_shed_url'' \<mapsto> PStr ''https://toolshed.g2.bx.psu.edu/'',
               ''changeset_revision'' \<mapsto> PNone]],
      trace = []\<rparr>"

text \<open>Three tool entries as they come from a tool list: one with a panel section, one
  without panel placement, and a data manager without panel placement.\<close>

definition tool_state :: state where
  "tool_state =
     \<lparr>heap = [[''name'' \<mapsto> PStr ''bwa'', ''owner'' \<mapsto> PStr ''devteam'',
               ''tool_panel_section_label'' \<mapsto> PStr ''Mapping'']],
      trace = []\<rparr>"

definition unplaced_tool_state :: state where
  "unplaced_tool_state =
     \<lparr>heap = [[''name'' \<mapsto> PStr ''bwa'', ''owner'' \<mapsto> PStr ''devteam'']], trace = []\<rparr>"

definition data_manager_state :: state where
  "data_manager_state =
     \<lparr>heap = [[''name'' \<mapsto> PStr ''data_manager_fetch_genome'', ''owner'' \<mapsto> PStr ''devteam'']],
      trace = []\<rparr>"









section \<open>Properties\<close>

subsection \<open>format_tool_shed_url\<close>

lemma endswith_slash_iff: "endswith s ''/'' \<longleftrightarrow> s \<noteq> [] \<and> last s = CHR ''/''"
proof (cases s rule: rev_cases)
  case Nil
  then show ?thesis by (simp add: endswith_def)
next
  case (snoc ys y)
  then show ?thesis by (auto simp: endswith_def)
qed

lemma startswith_iff: "startswith s p \<longleftrightarrow> (\<exists>r. s = p @ r)"
proof
  assume "startswith s p"
  then have "s = p @ drop (length p) s"
    by (metis append_take_drop_id startswith_def)
  then show "\<exists>r. s = p @ r" ..
next
  assume "\<exists>r. s = p @ r"
  then show "startswith s p" by (auto simp: startswith_def)
qed

lemma startswith_http_append_slash:
  "startswith (s @ ''/'') ''http'' \<longleftrightarrow> startswith s ''http''"
proof
  assume "startswith (s @ ''/'') ''http''"
  then obtain r where r: "s @ ''/'' = ''http'' @ r"
    unfolding startswith_iff by blast
  show "startswith s ''http''"
  proof (cases r rule: rev_cases)
    case Nil
    with r have "last (s @ ''/'') = last ''http''" by simp
    then show ?thesis by simp
  next
    case (snoc r' x)
    with r have "s @ ''/'' = (''http'' @ r') @ [x]" by simp
    then have "s = ''http'' @ r'" by (simp only: append1_eq_conv)
    then show ?thesis unfolding startswith_iff by blast
  qed
next
  assume "startswith s ''http''"
  then obtain r where "s = ''http'' @ r" unfolding startswith_iff by blast
  then have "s @ ''/'' = ''http'' @ (r @ ''/'')" by simp
  then show "startswith (s @ ''/'') ''http''" unfolding startswith_iff by blast
qed

text \<open>
  C9. \<open>format_tool_shed_url\<close> is normalizing and idempotent: for every input string the
  result ends with \<^verbatim>\<open>/\<close> and starts with \<^verbatim>\<open>http\<close>; \<^verbatim>\<open>https://\<close> is prepended exactly
  when the input does not already start with \<^verbatim>\<open>http\<close> (the rest of the result is the
  input, with a \<^verbatim>\<open>/\<close> appended when it did not end with one); and applying the
  function to its own output returns that output unchanged.
\<close>

theorem format_tool_shed_url_normalizing_idempotent:
  "endswith (format_tool_shed_url s) ''/'' \<and>
   startswith (format_tool_shed_url s) ''http'' \<and>
   format_tool_shed_url s =
     (if startswith s ''http'' then [] else ''https://'') @ s @
     (if endswith s ''/'' then [] else ''/'') \<and>
   format_tool_shed_url (format_tool_shed_url s) = format_tool_shed_url s"
proof -
  let ?t = "if endswith s ''/'' then s else s @ ''/''"
  have t_end: "endswith ?t ''/''"
    by (simp add: endswith_slash_iff)
  have t_start: "startswith ?t ''http'' \<longleftrightarrow> startswith s ''http''"
    by (simp add: startswith_http_append_slash)
  have f: "format_tool_shed_url s = (if startswith s ''http'' then ?t else ''https://'' @ ?t)"
    unfolding format_tool_shed_url_def Let_def using t_start by auto
  have e: "endswith (format_tool_shed_url s) ''/''"
    using t_end unfolding f by (auto simp: endswith_slash_iff)
  have pre: "startswith (''https://'' @ ?t) ''http''"
    by (simp add: startswith_def)
  have st: "startswith (format_tool_shed_url s) ''http''"
    unfolding f using t_start pre by (simp split: if_splits)
  have shape: "format_tool_shed_url s =
     (if startswith s ''http'' then [] else ''https://'') @ s @
     (if endswith s ''/'' then [] else ''/'')"
    unfolding f by auto
  have idem: "format_tool_shed_url (format_tool_shed_url s) = format_tool_shed_url s"
    using e st by (simp add: format_tool_shed_url_def[of "format_tool_shed_url s"] Let_def)
  from e st shape idem show ?thesis by blast
qed

theorem format_tool_shed_url_witness:
  "format_tool_shed_url ''toolshed.g2.bx.psu.edu'' = ''https://toolshed.g2.bx.psu.edu/'' \<and>
   endswith (format_tool_shed_url ''toolshed.g2.bx.psu.edu'') ''/'' \<and>
   startswith (format_tool_shed_url ''toolshed.g2.bx.psu.edu'') ''http'' \<and>
   format_tool_shed_url (format_tool_shed_url ''toolshed.g2.bx.psu.edu'') =
     ''https://toolshed.g2.bx.psu.edu/''"
  using format_tool_shed_url_normalizing_idempotent [of "''toolshed.g2.bx.psu.edu''"]
  by (simp add: format_tool_shed_url_def startswith_def endswith_def)

subsection \<open>flatten_repo_info\<close>

lemma alloc_setitem:
  "setitem (h @ [d]) (length h) k v = h @ [d(k \<mapsto> v)]"
  by (simp add: setitem_def)

lemma revisions_loop_eq:
  "n < length h \<Longrightarrow>
   revisions_loop n revs h fl =
     (h @ map (\<lambda>r. (h ! n)(''changeset_revision'' \<mapsto> r)) revs,
      fl @ [length h ..< length h + length revs])"
proof (induction revs arbitrary: h fl)
  case Nil
  then show ?case by simp
next
  case (Cons r revs)
  let ?h = "h @ [(h ! n)(''changeset_revision'' \<mapsto> r)]"
  have n: "n < length ?h" using Cons.prems by simp
  have hn: "?h ! n = h ! n" using Cons.prems by (simp add: nth_append)
  have "revisions_loop n (r # revs) h fl = revisions_loop n revs ?h (fl @ [length h])"
    by (simp add: alloc_def alloc_setitem)
  also have "\<dots> = (?h @ map (\<lambda>r. (?h ! n)(''changeset_revision'' \<mapsto> r)) revs,
      (fl @ [length h]) @ [length ?h ..< length ?h + length revs])"
    by (rule Cons.IH[OF n])
  finally have step: "revisions_loop n (r # revs) h fl =
      (?h @ map (\<lambda>r. (?h ! n)(''changeset_revision'' \<mapsto> r)) revs,
      (fl @ [length h]) @ [length ?h ..< length ?h + length revs])" .
  have upt: "[length h ..< length h + length (r # revs)] =
      length h # [length ?h ..< length ?h + length revs]"
    using upt_conv_Cons[of "length h" "length h + length (r # revs)"]
    by (simp del: upt_Suc)
  show ?case
    by (simp only: step upt hn list.map append_assoc append_Cons append_Nil)
qed

lemma dom_valid_items: "dom (valid_items d) \<subseteq> set VALID_KEYS"
  by (auto simp: valid_items_def split: if_splits)

lemma changeset_revision_valid: "''changeset_revision'' \<in> set VALID_KEYS"
  by (simp add: VALID_KEYS_def)

lemma repositories_loop_Cons:
  "repositories_loop (a # rest) h fl =
     (let v = valid_items (h ! a); h1 = h @ [v] in
      if (h1 ! a) ''revisions'' = None then repositories_loop rest h1 (fl @ [length h])
      else if \<not> py_truthy (the ((h1 ! a) ''revisions''))
      then repositories_loop rest h1 (fl @ [length h])
      else (case py_iter (the ((h1 ! a) ''revisions'')) of
              Inl e \<Rightarrow> (Inl e, h1)
            | Inr revs \<Rightarrow>
                repositories_loop rest
                  (h1 @ map (\<lambda>r. v(''changeset_revision'' \<mapsto> r)) revs)
                  (fl @ [length h1 ..< length h1 + length revs])))"
proof -
  have rl: "revisions_loop (length h) revs (h @ [v]) fl =
      ((h @ [v]) @ map (\<lambda>r. v(''changeset_revision'' \<mapsto> r)) revs,
       fl @ [length (h @ [v]) ..< length (h @ [v]) + length revs])" for revs v
    using revisions_loop_eq[of "length h" "h @ [v]" revs fl] by simp
  show ?thesis
    by (auto simp add: alloc_def Let_def get_default_def rl simp del: upt_Suc
        split: sum.splits option.splits)
qed

lemma repositories_loop_extends:
  "repositories_loop repos h fl = (res, h') \<Longrightarrow>
   \<exists>ext. h' = h @ ext \<and> (\<forall>d\<in>set ext. dom d \<subseteq> set VALID_KEYS) \<and>
     (\<forall>out. res = Inr out \<longrightarrow> set out \<subseteq> set fl \<union> {length h ..< length h'})"
proof (induction repos arbitrary: h fl res h')
  case Nil
  then show ?case by auto
next
  case (Cons a rest)
  define v where "v = valid_items (h ! a)"
  define h1 where "h1 = h @ [v]"
  have dv: "dom v \<subseteq> set VALID_KEYS" unfolding v_def by (rule dom_valid_items)
  have dvr: "dom (v(''changeset_revision'' \<mapsto> r)) \<subseteq> set VALID_KEYS" for r
    using dv changeset_revision_valid by auto
  note step = Cons.prems[unfolded repositories_loop_Cons Let_def, folded v_def, folded h1_def]
  consider
    (one) "repositories_loop rest h1 (fl @ [length h]) = (res, h')"
  | (err) e where "res = Inl e" "h' = h1"
  | (many) revs where "repositories_loop rest
        (h1 @ map (\<lambda>r. v(''changeset_revision'' \<mapsto> r)) revs)
        (fl @ [length h1 ..< length h1 + length revs]) = (res, h')"
    using step by (auto split: if_splits sum.splits)
  then show ?case
  proof cases
    case one
    from Cons.IH[OF one] obtain ext where
      ext: "h' = h1 @ ext" "\<forall>d\<in>set ext. dom d \<subseteq> set VALID_KEYS"
        "\<forall>out. res = Inr out \<longrightarrow> set out \<subseteq> set (fl @ [length h]) \<union> {length h1 ..< length h'}"
      by blast
    have "h' = h @ ([v] @ ext)" using ext(1) by (simp add: h1_def)
    moreover have "\<forall>d\<in>set ([v] @ ext). dom d \<subseteq> set VALID_KEYS"
      using ext(2) dv by auto
    moreover have "set (fl @ [length h]) \<union> {length h1 ..< length h'}
        \<subseteq> set fl \<union> {length h ..< length h'}"
      using ext(1) by (auto simp: h1_def)
    with ext(3) have "\<forall>out. res = Inr out \<longrightarrow> set out \<subseteq> set fl \<union> {length h ..< length h'}"
      by blast
    ultimately show ?thesis by blast
  next
    case err
    have "h' = h @ [v]" using err by (simp add: h1_def)
    moreover have "\<forall>d\<in>set [v]. dom d \<subseteq> set VALID_KEYS" using dv by simp
    ultimately show ?thesis using err(1) by blast
  next
    case many
    let ?new = "map (\<lambda>r. v(''changeset_revision'' \<mapsto> r)) revs"
    from Cons.IH[OF many] obtain ext where
      ext: "h' = (h1 @ ?new) @ ext" "\<forall>d\<in>set ext. dom d \<subseteq> set VALID_KEYS"
        "\<forall>out. res = Inr out \<longrightarrow>
           set out \<subseteq> set (fl @ [length h1 ..< length h1 + length revs]) \<union>
             {length (h1 @ ?new) ..< length h'}"
      by blast
    have "h' = h @ ([v] @ ?new @ ext)" using ext(1) by (simp add: h1_def)
    moreover have "\<forall>d\<in>set ?new. dom d \<subseteq> set VALID_KEYS"
      using dvr by (simp only: set_map ball_simps) blast
    with ext(2) dv have "\<forall>d\<in>set ([v] @ ?new @ ext). dom d \<subseteq> set VALID_KEYS"
      by (simp only: set_append ball_Un list.set ball_simps)
    moreover have "set (fl @ [length h1 ..< length h1 + length revs]) \<union>
             {length (h1 @ ?new) ..< length h'} \<subseteq> set fl \<union> {length h ..< length h'}"
      using ext(1) by (auto simp: h1_def simp del: upt_Suc)
    with ext(3) have "\<forall>out. res = Inr out \<longrightarrow> set out \<subseteq> set fl \<union> {length h ..< length h'}"
      by blast
    ultimately show ?thesis by blast
  qed
qed

lemma map_nth_middle:
  "map (nth (xs @ ys @ zs)) [length xs ..< length xs + length ys] = ys"
  by (rule nth_equalityI) (simp_all add: nth_append del: upt_Suc)

lemma expected_entries_cases:
  assumes "revisions_listed d"
  shows "(d ''revisions'' = None \<and> expected_entries d = [valid_items d]) \<or>
         (\<exists>v. d ''revisions'' = Some v \<and> \<not> py_truthy v \<and> expected_entries d = [valid_items d]) \<or>
         (\<exists>v revs. d ''revisions'' = Some v \<and> py_truthy v \<and> py_iter v = Inr revs \<and>
            expected_entries d = map (\<lambda>r. (valid_items d)(''changeset_revision'' \<mapsto> r)) revs)"
proof (cases "d ''revisions''")
  case None
  then show ?thesis by (simp add: expected_entries_def)
next
  case (Some v)
  with assms show ?thesis
    by (cases v; cases "case v of PList rs \<Rightarrow> rs | _ \<Rightarrow> []")
       (simp_all add: expected_entries_def revisions_listed_def)
qed

lemma repositories_loop_listed:
  assumes "\<forall>a\<in>set repos. a < length h \<and> revisions_listed (h ! a)"
  shows "\<exists>out h' ext. repositories_loop repos h fl = (Inr out, h') \<and> h' = h @ ext \<and>
      map (nth h') out = map (nth h') fl @ concat (map (\<lambda>a. expected_entries (h ! a)) repos)"
  using assms
proof (induction repos arbitrary: h fl)
  case Nil
  then show ?case by simp
next
  case (Cons a rest)
  define v where "v = valid_items (h ! a)"
  define h1 where "h1 = h @ [v]"
  have a: "a < length h" "revisions_listed (h ! a)" using Cons.prems by simp_all
  have h1a: "h1 ! a = h ! a" using a(1) by (simp add: h1_def nth_append)
  note step = repositories_loop_Cons[of a rest h fl, unfolded Let_def, folded v_def,
      folded h1_def, unfolded h1a]
  from expected_entries_cases[OF a(2)] consider
    (one) "repositories_loop (a # rest) h fl = repositories_loop rest h1 (fl @ [length h])"
      "expected_entries (h ! a) = [v]"
  | (many) revs where "repositories_loop (a # rest) h fl = repositories_loop rest
        (h1 @ map (\<lambda>r. v(''changeset_revision'' \<mapsto> r)) revs)
        (fl @ [length h1 ..< length h1 + length revs])"
      "expected_entries (h ! a) = map (\<lambda>r. v(''changeset_revision'' \<mapsto> r)) revs"
    unfolding v_def[symmetric] using step by (elim disjE exE conjE) simp_all
  then show ?case
  proof cases
    case one
    have pre: "\<forall>b\<in>set rest. b < length h1 \<and> revisions_listed (h1 ! b)"
      using Cons.prems by (auto simp: h1_def nth_append)
    from Cons.IH[OF pre, of "fl @ [length h]"] obtain out h' ext where
      r: "repositories_loop rest h1 (fl @ [length h]) = (Inr out, h')" "h' = h1 @ ext"
        "map (nth h') out = map (nth h') (fl @ [length h]) @
           concat (map (\<lambda>a. expected_entries (h1 ! a)) rest)"
      by blast
    have same: "map (\<lambda>a. expected_entries (h1 ! a)) rest = map (\<lambda>a. expected_entries (h ! a)) rest"
      using Cons.prems by (auto simp: h1_def nth_append)
    have new: "h' ! length h = v" using r(2) by (simp add: h1_def nth_append)
    have "h' = h @ ([v] @ ext)" using r(2) by (simp add: h1_def)
    moreover have "map (nth h') out = map (nth h') fl @
        concat (map (\<lambda>a. expected_entries (h ! a)) (a # rest))"
      unfolding r(3) same by (simp add: one(2) new)
    ultimately show ?thesis using r(1) one(1) by (metis (no_types))
  next
    case many
    let ?new = "map (\<lambda>r. v(''changeset_revision'' \<mapsto> r)) revs"
    let ?fl = "fl @ [length h1 ..< length h1 + length revs]"
    have pre: "\<forall>b\<in>set rest. b < length (h1 @ ?new) \<and> revisions_listed ((h1 @ ?new) ! b)"
      using Cons.prems by (auto simp: h1_def nth_append)
    from Cons.IH[OF pre, of ?fl] obtain out h' ext where
      r: "repositories_loop rest (h1 @ ?new) ?fl = (Inr out, h')" "h' = (h1 @ ?new) @ ext"
        "map (nth h') out = map (nth h') ?fl @
           concat (map (\<lambda>a. expected_entries ((h1 @ ?new) ! a)) rest)"
      by blast
    have same: "map (\<lambda>a. expected_entries ((h1 @ ?new) ! a)) rest =
        map (\<lambda>a. expected_entries (h ! a)) rest"
      using Cons.prems by (auto simp: h1_def nth_append)
    have "map (nth (h1 @ ?new @ ext)) [length h1 ..< length h1 + length ?new] = ?new"
      by (rule map_nth_middle)
    then have new: "map (nth h') [length h1 ..< length h1 + length revs] = ?new"
      using r(2) by simp
    have "h' = h @ ([v] @ ?new @ ext)" using r(2) by (simp add: h1_def)
    moreover have "map (nth h') out = map (nth h') fl @
        concat (map (\<lambda>a. expected_entries (h ! a)) (a # rest))"
      unfolding r(3) same by (simp only: map_append new many(2) list.map concat.simps append_assoc)
    ultimately show ?thesis using r(1) many(1) by (metis (no_types))
  qed
qed

text \<open>
  C1, as the claim states it (for every list of repository dictionaries), fails where
  a \<^verbatim>\<open>revisions\<close> value is neither \<^verbatim>\<open>None\<close> nor a list. With the number 7 the loop of
  line 114 raises \<^verbatim>\<open>TypeError\<close>: the call returns no list at all, so the element
  before it, which has no \<^verbatim>\<open>revisions\<close> key, contributes no output dictionary. With
  the string \<^verbatim>\<open>ab\<close> the loop runs over the characters: the element contributes two
  dictionaries, with \<^verbatim>\<open>changeset_revision\<close> \<^verbatim>\<open>a\<close> and \<^verbatim>\<open>b\<close>.
\<close>

theorem flatten_repo_info_unlisted_counterexample:
  "unlisted_repositories ! 0 = [''name'' \<mapsto> PStr ''a''] \<and>
   unlisted_repositories ! 1 = [''name'' \<mapsto> PStr ''b'', ''revisions'' \<mapsto> PInt 7] \<and>
   fst (flatten_repo_info unlisted_repositories [0, 1]) = Inl TypeError \<and>
   unlisted_repositories ! 2 = [''name'' \<mapsto> PStr ''c'', ''revisions'' \<mapsto> PStr ''ab''] \<and>
   fst (flatten_repo_info unlisted_repositories [2]) = Inr [4, 5] \<and>
   map (\<lambda>a. (snd (flatten_repo_info unlisted_repositories [2]) ! a) ''changeset_revision'')
     [4, 5] = [Some (PStr ''a''), Some (PStr ''b'')]"
  by (simp add: flatten_repo_info_def unlisted_repositories_def alloc_def setitem_def
      get_default_def Let_def)

text \<open>
  C1, amended. \<open>flatten_repo_info\<close> returns one entry per (repository, revision) pair
  for every list of repository dictionaries whose \<^verbatim>\<open>revisions\<close> value is absent, \<^verbatim>\<open>None\<close>
  or a list:
  the call returns normally, and the dictionaries it returns are, in order, the
  contributions of the input elements: an element with a non-empty list of revisions
  contributes one dictionary per listed revision, the i-th carrying the i-th revision
  as its \<^verbatim>\<open>changeset_revision\<close>; an element with no \<^verbatim>\<open>revisions\<close> key, or with an
  empty list or \<^verbatim>\<open>None\<close>, contributes exactly one dictionary, with no
  \<^verbatim>\<open>changeset_revision\<close> added.
\<close>

theorem flatten_repo_info_one_entry_per_revision:
  assumes "\<forall>a\<in>set repositories. a < length h \<and> revisions_listed (h ! a)"
  shows "\<exists>out h'. flatten_repo_info h repositories = (Inr out, h') \<and>
     map (nth h') out = concat (map (\<lambda>a. expected_entries (h ! a)) repositories)"
proof -
  from repositories_loop_listed[OF assms, of "[]"] obtain out h' where
    "repositories_loop repositories h [] = (Inr out, h')"
    "map (nth h') out = map (nth h') [] @ concat (map (\<lambda>a. expected_entries (h ! a)) repositories)"
    by blast
  then show ?thesis by (simp add: flatten_repo_info_def)
qed

theorem flatten_repo_info_one_entry_per_revision_witness:
  "\<exists>out h'. flatten_repo_info example_repositories [0, 1] = (Inr out, h') \<and>
     map (\<lambda>a. (h' ! a) ''changeset_revision'') out = [Some (PStr ''r1''), Some (PStr ''r2''), None] \<and>
     map (\<lambda>a. (h' ! a) ''name'') out =
       [Some (PStr ''bwa''), Some (PStr ''bwa''), Some (PStr ''fastqc'')]"
proof -
  have pre: "\<forall>a\<in>set [0, 1]. a < length example_repositories \<and>
      revisions_listed (example_repositories ! a)"
    by (simp add: example_repositories_def revisions_listed_def)
  from flatten_repo_info_one_entry_per_revision[OF pre] obtain out h' where
    r: "flatten_repo_info example_repositories [0, 1] = (Inr out, h')"
       "map (nth h') out = concat (map (\<lambda>a. expected_entries (example_repositories ! a)) [0, 1])"
    by blast
  have e: "map (\<lambda>a. (h' ! a) k) out = map (\<lambda>d. d k) (map (nth h') out)" for k
    by (simp add: comp_def)
  have cr: "map (\<lambda>a. (h' ! a) ''changeset_revision'') out =
      [Some (PStr ''r1''), Some (PStr ''r2''), None]"
    unfolding e r(2)
    by (simp add: example_repositories_def expected_entries_def valid_items_def VALID_KEYS_def)
  have nm: "map (\<lambda>a. (h' ! a) ''name'') out =
       [Some (PStr ''bwa''), Some (PStr ''bwa''), Some (PStr ''fastqc'')]"
    unfolding e r(2)
    by (simp add: example_repositories_def expected_entries_def valid_items_def VALID_KEYS_def)
  show ?thesis
    by (rule exI[of _ out], rule exI[of _ h']) (simp only: r(1) cr nm simp_thms)
qed

text \<open>
  C10. Every dictionary returned by \<open>flatten_repo_info\<close> contains only keys from
  \<open>VALID_KEYS\<close>: any other key, \<^verbatim>\<open>revisions\<close> included, is absent from every output
  entry.
\<close>

theorem flatten_repo_info_only_valid_keys:
  assumes "flatten_repo_info h repositories = (Inr out, h')"
  shows "\<forall>a\<in>set out. (\<forall>key. key \<notin> set VALID_KEYS \<longrightarrow> (h' ! a) key = None) \<and>
     (h' ! a) ''revisions'' = None"
proof
  fix a assume a: "a \<in> set out"
  from assms have "repositories_loop repositories h [] = (Inr out, h')"
    by (simp add: flatten_repo_info_def)
  from repositories_loop_extends[OF this] obtain ext where
    ext: "h' = h @ ext" "\<forall>d\<in>set ext. dom d \<subseteq> set VALID_KEYS"
      "set out \<subseteq> {length h ..< length h'}"
    by auto
  from a ext(3) have range: "length h \<le> a" "a < length h'" by auto
  then have "h' ! a = ext ! (a - length h)" "a - length h < length ext"
    using ext(1) by (auto simp: nth_append)
  then have "h' ! a \<in> set ext" by simp
  with ext(2) have d: "dom (h' ! a) \<subseteq> set VALID_KEYS" by blast
  then have all: "\<forall>key. key \<notin> set VALID_KEYS \<longrightarrow> (h' ! a) key = None" by auto
  moreover have "''revisions'' \<notin> set VALID_KEYS" by (simp add: VALID_KEYS_def)
  ultimately show "(\<forall>key. key \<notin> set VALID_KEYS \<longrightarrow> (h' ! a) key = None) \<and>
     (h' ! a) ''revisions'' = None" by blast
qed

theorem flatten_repo_info_only_valid_keys_witness:
  "fst (flatten_repo_info example_repositories [0, 1]) = Inr [3, 4, 5] \<and>
   (snd (flatten_repo_info example_repositories [0, 1]) ! 3) ''revisions'' = None \<and>
   (snd (flatten_repo_info example_repositories [0, 1]) ! 3) ''comment'' = None \<and>
   (snd (flatten_repo_info example_repositories [0, 1]) ! 5) ''comment'' = None"
proof -
  have ev: "fst (flatten_repo_info example_repositories [0, 1]) = Inr [3, 4, 5]"
    by (simp add: flatten_repo_info_def alloc_def setitem_def get_default_def
        example_repositories_def Let_def eval_nat_numeral)
  then have "flatten_repo_info example_repositories [0, 1] =
      (Inr [3, 4, 5], snd (flatten_repo_info example_repositories [0, 1]))"
    by (simp add: prod_eq_iff)
  from flatten_repo_info_only_valid_keys[OF this] ev show ?thesis
    by (simp add: VALID_KEYS_def)
qed

subsection \<open>get_changeset_revisions\<close>

text \<open>
  C2, as the claim states it, fails: with \<^verbatim>\<open>force_latest_revision\<close> set, a repository
  whose revision is pinned is looked up in the catalog all the same and its revision is
  overwritten.
\<close>

theorem get_changeset_revisions_forced_counterexample:
  "get (heap pinned_state ! 0) ''changeset_revision'' = PStr ''abc'' \<and>
   fst (get_changeset_revisions example_catalog 0 True pinned_state) = Inr 0 \<and>
   trace (snd (get_changeset_revisions example_catalog 0 True pinned_state)) =
     [CatalogQuery (PStr ''https://toolshed.g2.bx.psu.edu/'') (PStr ''bwa'') (PStr ''devteam'')] \<and>
   get (heap (snd (get_changeset_revisions example_catalog 0 True pinned_state)) ! 0)
     ''changeset_revision'' = PStr ''r2''"
  by (simp add: get_changeset_revisions_def pinned_state_def example_catalog_def get_def
      get_default_def subscript_def log_event_def store_def setitem_def)

text \<open>
  C2, amended. \<open>get_changeset_revisions\<close> queries the catalog exactly when no revision
  is pinned or \<^verbatim>\<open>force_latest_revision\<close> is set. When \<^verbatim>\<open>changeset_revision\<close> is set and
  \<^verbatim>\<open>force_latest_revision\<close> is false, the dictionary is returned unchanged and no
  catalog call is made. When \<^verbatim>\<open>changeset_revision\<close> is \<^verbatim>\<open>None\<close> (or absent) or
  \<^verbatim>\<open>force_latest_revision\<close> is true, and the dictionary has its \<^verbatim>\<open>tool_shed_url\<close>,
  \<^verbatim>\<open>name\<close> and \<^verbatim>\<open>owner\<close>, the client for that URL is built and the catalog is queried
  once for that name and owner; if it returns a non-empty list, the field is set, in the
  dictionary passed in, to the last element of that list; if it raises, the exception
  propagates and the store is unchanged. If building the client raises, that exception
  propagates, no query is made and nothing is changed.
\<close>

theorem get_changeset_revisions_queries_when_unpinned_or_forced:
  "(get (heap s ! repository) ''changeset_revision'' \<noteq> PNone \<and> \<not> force_latest_revision \<longrightarrow>
      get_changeset_revisions ts repository force_latest_revision s = (Inr repository, s)) \<and>
   ((get (heap s ! repository) ''changeset_revision'' = PNone \<or> force_latest_revision) \<and>
    (heap s ! repository) ''tool_shed_url'' = Some url \<and>
    (heap s ! repository) ''name'' = Some name \<and>
    (heap s ! repository) ''owner'' = Some owner \<longrightarrow>
      (ToolShedInstance ts url = None \<longrightarrow>
         trace (snd (get_changeset_revisions ts repository force_latest_revision s)) =
           trace s @ [CatalogQuery url name owner] \<and>
         (\<forall>revs. get_ordered_installable_revisions ts url name owner = Inr revs \<and> revs \<noteq> [] \<longrightarrow>
            fst (get_changeset_revisions ts repository force_latest_revision s) = Inr repository \<and>
            heap (snd (get_changeset_revisions ts repository force_latest_revision s)) =
              (heap s)[repository := (heap s ! repository)(''changeset_revision'' \<mapsto> last revs)]) \<and>
         (\<forall>e. get_ordered_installable_revisions ts url name owner = Inl e \<longrightarrow>
            fst (get_changeset_revisions ts repository force_latest_revision s) = Inl e \<and>
            heap (snd (get_changeset_revisions ts repository force_latest_revision s)) = heap s)) \<and>
      (\<forall>e. ToolShedInstance ts url = Some e \<longrightarrow>
         get_changeset_revisions ts repository force_latest_revision s = (Inl e, s)))"
  by (auto simp add: get_changeset_revisions_def subscript_def log_event_def store_def
      setitem_def Let_def split: sum.splits)

theorem get_changeset_revisions_queries_witness:
  "get_changeset_revisions example_catalog 0 False pinned_state = (Inr 0, pinned_state) \<and>
   trace (snd (get_changeset_revisions example_catalog 0 False unpinned_state)) =
     [CatalogQuery (PStr ''https://toolshed.g2.bx.psu.edu/'') (PStr ''bwa'') (PStr ''devteam'')] \<and>
   fst (get_changeset_revisions example_catalog 0 False unpinned_state) = Inr 0 \<and>
   (heap (snd (get_changeset_revisions example_catalog 0 False unpinned_state)) ! 0)
     ''changeset_revision'' = Some (PStr ''r2'') \<and>
   get_changeset_revisions unbuilt_catalog 0 False unpinned_state
     = (Inl (ServiceError ''invalid url''), unpinned_state)"
proof -
  have pinned: "get (heap pinned_state ! 0) ''changeset_revision'' \<noteq> PNone \<and> \<not> False"
    by (simp add: pinned_state_def get_def get_default_def)
  have unpinned: "(get (heap unpinned_state ! 0) ''changeset_revision'' = PNone \<or> False) \<and>
      (heap unpinned_state ! 0) ''tool_shed_url'' = Some (PStr ''https://toolshed.g2.bx.psu.edu/'') \<and>
      (heap unpinned_state ! 0) ''name'' = Some (PStr ''bwa'') \<and>
      (heap unpinned_state ! 0) ''owner'' = Some (PStr ''devteam'')"
    by (simp add: unpinned_state_def get_def get_default_def)
  have built: "ToolShedInstance example_catalog (PStr ''https://toolshed.g2.bx.psu.edu/'') = None"
    by (simp add: example_catalog_def)
  have revs: "get_ordered_installable_revisions example_catalog
      (PStr ''https://toolshed.g2.bx.psu.edu/'') (PStr ''bwa'')
      (PStr ''devteam'') = Inr [PStr ''r1'', PStr ''r2''] \<and> [PStr ''r1'', PStr ''r2''] \<noteq> []"
    by (simp add: example_catalog_def)
  have unbuilt: "ToolShedInstance unbuilt_catalog (PStr ''https://toolshed.g2.bx.psu.edu/'')
      = Some (ServiceError ''invalid url'')"
    by (simp add: unbuilt_catalog_def)
  note a = get_changeset_revisions_queries_when_unpinned_or_forced
    [where s=pinned_state and repository=0 and force_latest_revision=False
      and ts=example_catalog, THEN conjunct1, rule_format, OF pinned]
  note b = get_changeset_revisions_queries_when_unpinned_or_forced
    [where s=unpinned_state and repository=0 and force_latest_revision=False
      and ts=example_catalog, THEN conjunct2, rule_format, OF unpinned]
  note b1 = b[THEN conjunct1, rule_format, OF built, THEN conjunct1]
  note b2 = b[THEN conjunct1, rule_format, OF built, THEN conjunct2, THEN conjunct1,
    rule_format, OF revs]
  note c = get_changeset_revisions_queries_when_unpinned_or_forced
    [where s=unpinned_state and repository=0 and force_latest_revision=False
      and ts=unbuilt_catalog, THEN conjunct2, rule_format, OF unpinned,
      THEN conjunct2, rule_format, OF unbuilt]
  have "trace unpinned_state = []" by (simp add: unpinned_state_def)
  with a b1 b2 c show ?thesis
    by (simp add: unpinned_state_def)
qed


subsection \<open>complete_repo_information\<close>

lemma heap_store: "heap (store a k v s) = (heap s)[a := (heap s ! a)(k \<mapsto> v)]"
  by (simp add: store_def setitem_def)

lemma trace_store: "trace (store a k v s) = trace s"
  by (simp add: store_def)

lemma new_dict_eq: "new_dict s = (length (heap s), s\<lparr>heap := heap s @ [Map.empty]\<rparr>)"
  by (simp add: new_dict_def alloc_def)

lemma store_new:
  "store (length h) k v (s\<lparr>heap := h @ [d]\<rparr>) = s\<lparr>heap := h @ [d(k \<mapsto> v)]\<rparr>"
  by (simp add: store_def setitem_def)

lemma nth_old: "tool < length h \<Longrightarrow> (h @ [d]) ! tool = h ! tool"
  by (simp add: nth_append)

lemma nth_new: "(h @ [d]) ! length h = d"
  by simp

lemma get_changeset_revisions_new:
  "get_changeset_revisions ts (length h) f (s\<lparr>heap := h @ [d]\<rparr>) =
     (if get d ''changeset_revision'' = PNone \<or> f then
        (case subscript d ''tool_shed_url'' of
           Inl e \<Rightarrow> (Inl e, s\<lparr>heap := h @ [d]\<rparr>)
         | Inr url \<Rightarrow>
        (case ToolShedInstance ts url of
           Some e \<Rightarrow> (Inl e, s\<lparr>heap := h @ [d]\<rparr>)
         | None \<Rightarrow>
        (case subscript d ''name'' of
           Inl e \<Rightarrow> (Inl e, s\<lparr>heap := h @ [d]\<rparr>)
         | Inr name \<Rightarrow>
        (case subscript d ''owner'' of
           Inl e \<Rightarrow> (Inl e, s\<lparr>heap := h @ [d]\<rparr>)
         | Inr owner \<Rightarrow>
        (case get_ordered_installable_revisions ts url name owner of
           Inl e \<Rightarrow> (Inl e, s\<lparr>heap := h @ [d], trace := trace s @ [CatalogQuery url name owner]\<rparr>)
         | Inr revs \<Rightarrow>
             if revs = [] then (Inl LookupError, s\<lparr>heap := h @ [d], trace := trace s @ [CatalogQuery url name owner]\<rparr>)
             else (Inr (length h),
                   s\<lparr>heap := h @ [d(''changeset_revision'' \<mapsto> last revs)],
                     trace := trace s @ [CatalogQuery url name owner]\<rparr>))))))
      else (Inr (length h), s\<lparr>heap := h @ [d]\<rparr>))"
  by (simp add: get_changeset_revisions_def log_event_def store_def setitem_def Let_def
      split: sum.splits option.splits)

lemma get_upd: "get (d(k \<mapsto> v)) k' = (if k' = k then v else get d k')"
  by (simp add: get_def get_default_def)

lemma subscript_upd:
  "subscript (d(k \<mapsto> v)) k' = (if k' = k then Inr v else subscript d k')"
  by (simp add: subscript_def)

lemma store_new_traced:
  "store (length h) k v (s\<lparr>heap := h @ [d], trace := tr\<rparr>) =
     s\<lparr>heap := h @ [d(k \<mapsto> v)], trace := tr\<rparr>"
  by (simp add: store_def setitem_def)

lemma complete_repo_information_eq:
  assumes "tool < length (heap s)"
  shows "complete_repo_information ts tool default_url req d_tool d_repo d_resolver force s =
   (let t = heap s ! tool; h = heap s in
    case t ''name'' of
      None \<Rightarrow> (Inl (KeyError ''name''), s\<lparr>heap := h @ [Map.empty]\<rparr>)
    | Some name \<Rightarrow>
   (case t ''owner'' of
      None \<Rightarrow> (Inl (KeyError ''owner''), s\<lparr>heap := h @ [[''name'' \<mapsto> name]]\<rparr>)
    | Some owner \<Rightarrow>
   (let d4 = [''name'' \<mapsto> name, ''owner'' \<mapsto> owner,
              ''tool_panel_section_id'' \<mapsto> get t ''tool_panel_section_id'',
              ''tool_panel_section_label'' \<mapsto> get t ''tool_panel_section_label'']
    in
    case (if req \<and> get t ''tool_panel_section_id'' = PNone
               \<and> get t ''tool_panel_section_label'' = PNone
          then (case str_in ''data_manager'' name of
                  Inl e \<Rightarrow> Some e
                | Inr found \<Rightarrow> if \<not> found then Some (KeyError_panel name) else None)
          else None) of
      Some e \<Rightarrow> (Inl e, s\<lparr>heap := h @ [d4]\<rparr>)
    | None \<Rightarrow>
   (case call_format_tool_shed_url (get_default t ''tool_shed_url'' default_url) of
      Inl e \<Rightarrow> (Inl e, s\<lparr>heap := h @ [d4]\<rparr>)
    | Inr u \<Rightarrow>
   (let d6 = d4(''tool_shed_url'' \<mapsto> u, ''changeset_revision'' \<mapsto> get t ''changeset_revision'');
        tr = trace s @ [CatalogQuery u name owner]
    in
    if get t ''changeset_revision'' = PNone \<or> force then
      (case ToolShedInstance ts u of
         Some e \<Rightarrow> (Inl e, s\<lparr>heap := h @ [d6]\<rparr>)
       | None \<Rightarrow>
       case get_ordered_installable_revisions ts u name owner of
         Inl e \<Rightarrow> (Inl e, s\<lparr>heap := h @ [d6], trace := tr\<rparr>)
       | Inr revs \<Rightarrow>
           if revs = [] then (Inl LookupError, s\<lparr>heap := h @ [d6], trace := tr\<rparr>)
           else (Inr (length h),
                 s\<lparr>heap := h @ [d6(''changeset_revision'' \<mapsto> last revs,
                    ''install_repository_dependencies'' \<mapsto>
                       get_default t ''install_repository_dependencies'' d_repo,
                    ''install_resolver_dependencies'' \<mapsto>
                       get_default t ''install_resolver_dependencies'' d_resolver,
                    ''install_tool_dependencies'' \<mapsto>
                       get_default t ''install_tool_dependencies'' d_tool)],
                   trace := tr\<rparr>))
    else (Inr (length h),
          s\<lparr>heap := h @ [d6(
             ''install_repository_dependencies'' \<mapsto>
                get_default t ''install_repository_dependencies'' d_repo,
             ''install_resolver_dependencies'' \<mapsto>
                get_default t ''install_resolver_dependencies'' d_resolver,
             ''install_tool_dependencies'' \<mapsto>
                get_default t ''install_tool_dependencies'' d_tool)]\<rparr>))))))"
proof -
  let ?t = "heap s ! tool"
  note defs = complete_repo_information_def new_dict_eq store_new store_new_traced
    get_changeset_revisions_new nth_old[OF assms] nth_new get_upd subscript_upd
    subscript_def[of ?t] Let_def
  show ?thesis
  proof (cases "?t ''name''")
    case None
    then show ?thesis by (simp add: defs)
  next
    case name: (Some name)
    show ?thesis
    proof (cases "?t ''owner''")
      case None
      with name show ?thesis by (simp add: defs)
    next
      case owner: (Some owner)
      show ?thesis
      proof (cases "call_format_tool_shed_url (get_default ?t ''tool_shed_url'' default_url)")
        case (Inl e)
        show ?thesis
          by (simp add: defs name owner Inl cong: if_cong sum.case_cong option.case_cong
              split: sum.splits)
      next
        case (Inr u)
        show ?thesis
          by (simp add: defs name owner Inr cong: if_cong sum.case_cong option.case_cong
              split: sum.splits option.splits)
      qed
    qed
  qed
qed

text \<open>
  C8. \<open>complete_repo_information\<close> requires \<^verbatim>\<open>name\<close> and \<^verbatim>\<open>owner\<close>: for every tool
  dictionary missing either key it raises a \<open>KeyError\<close> (for the first missing key); and
  whenever it returns, both were present and the returned repository dictionary holds
  them unchanged.
\<close>

theorem complete_repo_information_name_owner:
  assumes "tool < length (heap s)"
  shows "((heap s ! tool) ''name'' = None \<longrightarrow>
            fst (complete_repo_information ts tool default_url req d_tool d_repo d_resolver force s)
              = Inl (KeyError ''name'')) \<and>
         ((heap s ! tool) ''name'' \<noteq> None \<and> (heap s ! tool) ''owner'' = None \<longrightarrow>
            fst (complete_repo_information ts tool default_url req d_tool d_repo d_resolver force s)
              = Inl (KeyError ''owner'')) \<and>
         (\<forall>repo s'.
            complete_repo_information ts tool default_url req d_tool d_repo d_resolver force s
              = (Inr repo, s') \<longrightarrow>
            (heap s ! tool) ''name'' \<noteq> None \<and> (heap s ! tool) ''owner'' \<noteq> None \<and>
            (heap s' ! repo) ''name'' = (heap s ! tool) ''name'' \<and>
            (heap s' ! repo) ''owner'' = (heap s ! tool) ''owner'')"
  unfolding complete_repo_information_eq[OF assms] Let_def
  by (auto split: option.splits sum.splits if_splits)

theorem complete_repo_information_name_owner_witness:
  "fst (complete_repo_information example_catalog 0 (PStr ''toolshed.g2.bx.psu.edu'') True
          (PBool True) (PBool True) (PBool False) False tool_state) = Inr 1 \<and>
   (heap (snd (complete_repo_information example_catalog 0 (PStr ''toolshed.g2.bx.psu.edu'') True
          (PBool True) (PBool True) (PBool False) False tool_state)) ! 1) ''name''
     = Some (PStr ''bwa'') \<and>
   (heap (snd (complete_repo_information example_catalog 0 (PStr ''toolshed.g2.bx.psu.edu'') True
          (PBool True) (PBool True) (PBool False) False tool_state)) ! 1) ''owner''
     = Some (PStr ''devteam'') \<and>
   fst (complete_repo_information example_catalog 0 (PStr ''toolshed.g2.bx.psu.edu'') True
          (PBool True) (PBool True) (PBool False) False
          \<lparr>heap = [[''owner'' \<mapsto> PStr ''devteam'']], trace = []\<rparr>) = Inl (KeyError ''name'')"
proof -
  let ?call = "complete_repo_information example_catalog 0 (PStr ''toolshed.g2.bx.psu.edu'') True
          (PBool True) (PBool True) (PBool False) False"
  have valid: "0 < length (heap tool_state)" by (simp add: tool_state_def)
  have ev: "fst (?call tool_state) = Inr 1"
    unfolding complete_repo_information_eq[OF valid]
    by (simp add: tool_state_def example_catalog_def get_def get_default_def
        format_tool_shed_url_def startswith_def endswith_def Let_def)
  then have run: "?call tool_state = (Inr 1, snd (?call tool_state))"
    by (simp add: prod_eq_iff)
  note ok = complete_repo_information_name_owner[OF valid, THEN conjunct2, THEN conjunct2,
      rule_format, OF run]
  have valid': "0 < length (heap \<lparr>heap = [[''owner'' \<mapsto> PStr ''devteam'']], trace = []\<rparr>)"
    by simp
  have missing: "(heap \<lparr>heap = [[''owner'' \<mapsto> PStr ''devteam'']], trace = []\<rparr> ! 0) ''name'' = None"
    by simp
  note ko = complete_repo_information_name_owner[OF valid', THEN conjunct1, rule_format, OF missing]
  from ok ev ko show ?thesis by (simp add: tool_state_def)
qed

text \<open>
  C4, as the claim states it, fails: a tool whose name contains \<^verbatim>\<open>data_manager\<close> is
  exempt from the check of line 44-45, and is completed without any panel placement.
\<close>

theorem complete_repo_information_data_manager_counterexample:
  "get (heap data_manager_state ! 0) ''tool_panel_section_id'' = PNone \<and>
   get (heap data_manager_state ! 0) ''tool_panel_section_label'' = PNone \<and>
   fst (complete_repo_information example_catalog 0 (PStr ''toolshed.g2.bx.psu.edu'') True
          (PBool True) (PBool True) (PBool False) False data_manager_state) = Inr 1"
proof -
  have valid: "0 < length (heap data_manager_state)" by (simp add: data_manager_state_def)
  show ?thesis
    unfolding complete_repo_information_eq[OF valid]
    by (simp add: data_manager_state_def example_catalog_def get_def get_default_def
        format_tool_shed_url_def startswith_def endswith_def Let_def)
qed

text \<open>
  C4, amended. When \<^verbatim>\<open>require_tool_panel_info\<close> is true, \<open>complete_repo_information\<close>
  raises a \<open>KeyError\<close> for every tool dictionary that defines neither
  \<^verbatim>\<open>tool_panel_section_id\<close> nor \<^verbatim>\<open>tool_panel_section_label\<close> (absent or \<^verbatim>\<open>None\<close>) and whose
  name does not contain \<^verbatim>\<open>data_manager\<close> (the containment test returns false); when the
  owner is present, it is the \<open>KeyError\<close> of line 46.
\<close>

theorem complete_repo_information_requires_panel_info:
  assumes "tool < length (heap s)"
    and "require_tool_panel_info"
    and "get (heap s ! tool) ''tool_panel_section_id'' = PNone"
    and "get (heap s ! tool) ''tool_panel_section_label'' = PNone"
    and "(heap s ! tool) ''name'' = Some name"
    and "str_in ''data_manager'' name = Inr False"
  shows "(\<exists>e. fst (complete_repo_information ts tool default_url require_tool_panel_info
                    d_tool d_repo d_resolver force s) = Inl e \<and> is_KeyError e) \<and>
         ((heap s ! tool) ''owner'' \<noteq> None \<longrightarrow>
           fst (complete_repo_information ts tool default_url require_tool_panel_info
                    d_tool d_repo d_resolver force s) = Inl (KeyError_panel name))"
  unfolding complete_repo_information_eq[OF assms(1)] Let_def
  using assms(2-) by (auto split: option.splits)

theorem complete_repo_information_requires_panel_info_witness:
  "fst (complete_repo_information example_catalog 0 (PStr ''toolshed.g2.bx.psu.edu'') True
          (PBool True) (PBool True) (PBool False) False unplaced_tool_state)
     = Inl (KeyError_panel (PStr ''bwa''))"
proof -
  have valid: "0 < length (heap unplaced_tool_state)" by (simp add: unplaced_tool_state_def)
  have a: "get (heap unplaced_tool_state ! 0) ''tool_panel_section_id'' = PNone"
    and b: "get (heap unplaced_tool_state ! 0) ''tool_panel_section_label'' = PNone"
    and c: "(heap unplaced_tool_state ! 0) ''name'' = Some (PStr ''bwa'')"
    and o: "(heap unplaced_tool_state ! 0) ''owner'' \<noteq> None"
    by (simp_all add: unplaced_tool_state_def get_def get_default_def)
  have d: "str_in ''data_manager'' (PStr ''bwa'') = Inr False"
    by (simp add: startswith_def)
  from complete_repo_information_requires_panel_info[OF valid TrueI a b c d, THEN conjunct2,
      rule_format, OF o]
  show ?thesis .
qed

subsection \<open>verify_tool_keep_history\<close>















lemma traced_refl: "traced E s s"
  by (simp add: traced_def)


























subsection \<open>Effects on the caller's data\<close>









subsection \<open>Where errors come from\<close>




















end
